theory Spec2Isabelle
  imports Complex_Main "HOL-Library.Char_ord" "HOL-Library.List_Lexorder" "HOL-Library.Multiset"
begin

section \<open>Resources of the OpenTelemetry SDK\<close>

text \<open>
  A shallow embedding of \<^verbatim>\<open>opentelemetry/sdk/resources/__init__.py\<close>.
  A Python \<^verbatim>\<open>str\<close> is a \<^typ>\<open>string\<close>, a \<^verbatim>\<open>dict\<close> is an association list in
  insertion order whose keys are pairwise distinct (\<open>dict_ok\<close> below), and an exception is a
  value of \<open>py_exception\<close>, returned on the left of a sum.
\<close>

subsection \<open>Label values and dictionaries\<close>

text \<open>
  \<^verbatim>\<open>LabelValue = typing.Union[str, bool, int, float]\<close>. A float is modelled by the real
  number it denotes; NaN, the infinities and the sign of zero are outside the model.
\<close>

datatype LabelValue = StrV string | BoolV bool | IntV int | FloatV real

type_synonym Attributes = "(string \<times> LabelValue) list"

text \<open>
  The exceptions of the module, all subclasses of \<^verbatim>\<open>Exception\<close>: the ValueError of a failed
  unpacking, the timeout error of \<^verbatim>\<open>future.result\<close>, the UnboundLocalError of reading a
  local variable before it is assigned, and whatever a detector from outside the module
  raises. Exceptions that are not subclasses of \<^verbatim>\<open>Exception\<close> (KeyboardInterrupt, SystemExit)
  are outside the model.
\<close>

datatype py_exception = ValueError | TimeoutError | UnboundLocalError | DetectorError string

text \<open>The number a non-string label value compares as: \<^verbatim>\<open>bool\<close> is a subclass of \<^verbatim>\<open>int\<close>.
  (The last equation is there for totality only: \<open>py_eq\<close> never asks for the number of a
  string.)\<close>

fun num_of :: "LabelValue \<Rightarrow> real" where
  "num_of (BoolV b) = (if b then 1 else 0)"
| "num_of (IntV i) = of_int i"
| "num_of (FloatV r) = r"
| "num_of (StrV s) = 0"

text \<open>Python's \<^verbatim>\<open>==\<close> on label values: a string equals only an equal string, the
  other three kinds compare by numeric value.\<close>

fun py_eq :: "LabelValue \<Rightarrow> LabelValue \<Rightarrow> bool" where
  "py_eq (StrV a) (StrV b) = (a = b)"
| "py_eq (StrV a) w = False"
| "py_eq v (StrV b) = False"
| "py_eq v w = (num_of v = num_of w)"

definition dict_ok :: "Attributes \<Rightarrow> bool" where
  "dict_ok d = distinct (map fst d)"

definition keys :: "Attributes \<Rightarrow> string set" where
  "keys d = fst ` set d"

text \<open>\<^verbatim>\<open>d[key] = value\<close>: an existing key keeps its position, a new one is appended.\<close>

fun setitem :: "string \<Rightarrow> LabelValue \<Rightarrow> Attributes \<Rightarrow> Attributes" where
  "setitem key value [] = [(key, value)]"
| "setitem key value ((k, v) # d) =
     (if k = key then (k, value) # d else (k, v) # setitem key value d)"

subsection \<open>The class Resource\<close>

text \<open>
  \<^verbatim>\<open>__init__\<close> stores a copy of its argument and the property \<^verbatim>\<open>attributes\<close> returns a
  copy of the stored dictionary, so on values both are the identity; the copies themselves
  are modelled on a store in the last section.
\<close>

datatype Resource = Resource (attributes: Attributes)

text \<open>
  The loop of \<^verbatim>\<open>merge\<close> over \<^verbatim>\<open>other._attributes.items()\<close>:
  \<^verbatim>\<open>if key not in merged_attributes or merged_attributes[key] == "": merged_attributes[key] = value\<close>.
\<close>

fun merge_loop :: "Attributes \<Rightarrow> Attributes \<Rightarrow> Attributes" where
  "merge_loop merged_attributes [] = merged_attributes"
| "merge_loop merged_attributes ((key, value) # items) =
     merge_loop
       (case map_of merged_attributes key of
          None \<Rightarrow> setitem key value merged_attributes
        | Some v \<Rightarrow> if py_eq v (StrV []) then setitem key value merged_attributes
                    else merged_attributes)
       items"

definition merge :: "Resource \<Rightarrow> Resource \<Rightarrow> Resource" where
  "merge self other = Resource (merge_loop (attributes self) (attributes other))"

definition EMPTY_RESOURCE :: Resource where
  "EMPTY_RESOURCE = Resource []"

definition create_empty :: Resource where
  "create_empty = EMPTY_RESOURCE"

text \<open>The module constants; \<^verbatim>\<open>OPENTELEMETRY_SDK_VERSION\<close> is looked up from the installed
  distribution when the module is loaded, so it is a parameter here.\<close>

definition TELEMETRY_SDK_LANGUAGE :: string where
  "TELEMETRY_SDK_LANGUAGE = ''telemetry.sdk.language''"

definition TELEMETRY_SDK_NAME :: string where
  "TELEMETRY_SDK_NAME = ''telemetry.sdk.name''"

definition TELEMETRY_SDK_VERSION :: string where
  "TELEMETRY_SDK_VERSION = ''telemetry.sdk.version''"

definition DEFAULT_RESOURCE :: "string \<Rightarrow> Resource" where
  "DEFAULT_RESOURCE OPENTELEMETRY_SDK_VERSION =
     Resource [(TELEMETRY_SDK_LANGUAGE, StrV ''python''),
               (TELEMETRY_SDK_NAME, StrV ''opentelemetry''),
               (TELEMETRY_SDK_VERSION, StrV OPENTELEMETRY_SDK_VERSION)]"

text \<open>\<^verbatim>\<open>if not attributes: return _DEFAULT_RESOURCE\<close>: an empty dictionary is false.\<close>

definition create :: "string \<Rightarrow> Attributes \<Rightarrow> Resource" where
  "create OPENTELEMETRY_SDK_VERSION attrs =
     (if attrs = [] then DEFAULT_RESOURCE OPENTELEMETRY_SDK_VERSION
      else merge (DEFAULT_RESOURCE OPENTELEMETRY_SDK_VERSION) (Resource attrs))"

subsection \<open>Equality and hash\<close>

text \<open>
  \<^verbatim>\<open>self._attributes == other._attributes\<close> on two dictionaries: the same number of
  entries, and every key of the first is a key of the second with an equal (\<^verbatim>\<open>==\<close>)
  value. The argument of \<^verbatim>\<open>__eq__\<close> is a Resource here; any other object gives False.
\<close>

definition dict_eq :: "Attributes \<Rightarrow> Attributes \<Rightarrow> bool" where
  "dict_eq a b =
     (length a = length b \<and>
      list_all (\<lambda>(k, v). case map_of b k of None \<Rightarrow> False | Some w \<Rightarrow> py_eq v w) a)"

definition Resource_eq :: "Resource \<Rightarrow> Resource \<Rightarrow> bool" where
  "Resource_eq self other = dict_eq (attributes self) (attributes other)"

text \<open>
  \<^verbatim>\<open>json.dumps(d, sort_keys=True)\<close> with the default separators and \<^verbatim>\<open>ensure_ascii\<close>:
  a string is quoted and escaped, a bool is \<^verbatim>\<open>true\<close> or \<^verbatim>\<open>false\<close>, an int is written in
  decimal. The text of a float (\<^verbatim>\<open>float.__repr__\<close>) is the parameter \<open>float_repr\<close>, and the
  built-in \<^verbatim>\<open>hash\<close> of a string is the parameter \<open>hash\<close>.
\<close>

definition hex_digit :: "nat \<Rightarrow> char" where
  "hex_digit n = ''0123456789abcdef'' ! (n mod 16)"

definition json_escape_char :: "char \<Rightarrow> string" where
  "json_escape_char c =
     (let n = (of_char c :: nat) in
      if n = 0x5C then [CHR 0x5C, CHR 0x5C]
      else if n = 0x22 then [CHR 0x5C, CHR 0x22]
      else if n = 8 then [CHR 0x5C, CHR ''b'']
      else if n = 12 then [CHR 0x5C, CHR ''f'']
      else if n = 10 then [CHR 0x5C, CHR ''n'']
      else if n = 13 then [CHR 0x5C, CHR ''r'']
      else if n = 9 then [CHR 0x5C, CHR ''t'']
      else if 32 \<le> n \<and> n \<le> 126 then [c]
      else [CHR 0x5C, CHR ''u'', CHR ''0'', CHR ''0'', hex_digit (n div 16), hex_digit n])"

definition json_string :: "string \<Rightarrow> string" where
  "json_string s = CHR 0x22 # concat (map json_escape_char s) @ [CHR 0x22]"

fun str_nat :: "nat \<Rightarrow> string" where
  "str_nat n =
     (if n < 10 then [''0123456789'' ! n]
      else str_nat (n div 10) @ [''0123456789'' ! (n mod 10)])"

definition str_int :: "int \<Rightarrow> string" where
  "str_int i = (if i < 0 then CHR ''-'' # str_nat (nat (- i)) else str_nat (nat i))"

fun json_value :: "(real \<Rightarrow> string) \<Rightarrow> LabelValue \<Rightarrow> string" where
  "json_value float_repr (StrV s) = json_string s"
| "json_value float_repr (BoolV b) = (if b then ''true'' else ''false'')"
| "json_value float_repr (IntV i) = str_int i"
| "json_value float_repr (FloatV r) = float_repr r"

fun join :: "string \<Rightarrow> string list \<Rightarrow> string" where
  "join sep [] = []"
| "join sep [x] = x"
| "join sep (x # y # ys) = x @ sep @ join sep (y # ys)"

definition dumps :: "(real \<Rightarrow> string) \<Rightarrow> Attributes \<Rightarrow> string" where
  "dumps float_repr d =
     ''{'' @ join '', '' (map (\<lambda>(k, v). json_string k @ '': '' @ json_value float_repr v)
                            (sort_key fst d)) @ ''}''"

definition Resource_hash :: "(string \<Rightarrow> int) \<Rightarrow> (real \<Rightarrow> string) \<Rightarrow> Resource \<Rightarrow> int" where
  "Resource_hash hash float_repr self = hash (dumps float_repr (attributes self))"

subsection \<open>The environment detector\<close>

text \<open>\<^verbatim>\<open>s.split(sep)\<close> for a separator of one character.\<close>

fun str_split :: "char \<Rightarrow> string \<Rightarrow> string list" where
  "str_split sep [] = [[]]"
| "str_split sep (c # s) =
     (if c = sep then [] # str_split sep s
      else (case str_split sep s of [] \<Rightarrow> [[c]] | w # ws \<Rightarrow> (c # w) # ws))"

text \<open>\<^verbatim>\<open>str.isspace\<close> on one character (code points below 256) and \<^verbatim>\<open>s.strip()\<close>.\<close>

definition isspace :: "char \<Rightarrow> bool" where
  "isspace c = ((of_char c :: nat) \<in> {9, 10, 11, 12, 13, 28, 29, 30, 31, 32, 133, 160})"

definition strip :: "string \<Rightarrow> string" where
  "strip s = rev (dropWhile isspace (rev (dropWhile isspace s)))"

text \<open>\<^verbatim>\<open>for key, value in ...\<close>: unpacking a list that has not exactly two elements raises
  ValueError.\<close>

fun unpack :: "string list \<Rightarrow> py_exception + string \<times> string" where
  "unpack [key, value] = Inr (key, value)"
| "unpack parts = Inl ValueError"

text \<open>The dictionary comprehension \<^verbatim>\<open>{key.strip(): value.strip() for key, value in ...}\<close>,
  filling the dictionary entry by entry; the first entry that cannot be unpacked raises.\<close>

fun dict_comprehension :: "string list list \<Rightarrow> Attributes \<Rightarrow> py_exception + Attributes" where
  "dict_comprehension [] d = Inr d"
| "dict_comprehension (parts # rest) d =
     (case unpack parts of
        Inl ex \<Rightarrow> Inl ex
      | Inr (key, value) \<Rightarrow> dict_comprehension rest (setitem (strip key) (StrV (strip value)) d))"

definition OTELResourceDetector_detect :: "(string \<rightharpoonup> string) \<Rightarrow> py_exception + Resource" where
  "OTELResourceDetector_detect environ =
     (case environ ''OTEL_RESOURCE_ATTRIBUTES'' of
        None \<Rightarrow> Inr (Resource [])
      | Some env_resources_items \<Rightarrow>
          if env_resources_items = [] then Inr (Resource [])
          else (case dict_comprehension
                       (map (str_split CHR ''='') (str_split CHR '','' env_resources_items)) [] of
                  Inl ex \<Rightarrow> Inl ex
                | Inr env_resource_map \<Rightarrow> Inr (Resource env_resource_map)))"

subsection \<open>Detectors and aggregation\<close>

text \<open>
  What a submitted \<^verbatim>\<open>detect\<close> call has done when the wait of \<^verbatim>\<open>future.result(timeout)\<close>
  ends: it has returned a resource, it has raised an exception (a subclass of
  \<^verbatim>\<open>Exception\<close>), or it is still pending, and then \<^verbatim>\<open>future.result\<close> raises a timeout
  error. Wall-clock time and the scheduling of the four workers are not modelled: the
  outcome of each call is part of the detector. A pending call finishes later; the pool's
  shutdown at the end of the \<^verbatim>\<open>with\<close> block waits for it.
\<close>

datatype detection = Returns Resource | Raises py_exception | Pending

record ResourceDetector =
  raise_on_error :: bool
  detect :: detection

text \<open>\<^verbatim>\<open>OTELResourceDetector()\<close>: \<^verbatim>\<open>raise_on_error\<close> has its default, False. Its call reads
  the environment only and is taken to complete within the timeout.\<close>

definition OTELResourceDetector :: "(string \<rightharpoonup> string) \<Rightarrow> ResourceDetector" where
  "OTELResourceDetector environ =
     \<lparr>raise_on_error = False,
      detect = (case OTELResourceDetector_detect environ of
                  Inr r \<Rightarrow> Returns r
                | Inl ex \<Rightarrow> Raises ex)\<rparr>"

fun future_result :: "detection \<Rightarrow> py_exception + Resource" where
  "future_result (Returns r) = Inr r"
| "future_result (Raises ex) = Inl ex"
| "future_result Pending = Inl TimeoutError"

text \<open>
  The loop over \<^verbatim>\<open>enumerate(futures)\<close>, with \<^verbatim>\<open>detector = detectors[detector_ind]\<close>; the
  index is in range, since there is one future for each detector. The variable \<^verbatim>\<open>detected_resources\<close> is unbound
  (\<open>None\<close>) until the first iteration assigns it. The \<^verbatim>\<open>finally\<close> clause runs on every
  path: after \<^verbatim>\<open>raise ex\<close> it merges the value left by the previous iteration into a
  local that nobody reads again, and then \<^verbatim>\<open>ex\<close> propagates; were the variable still
  unbound there, the UnboundLocalError of the \<^verbatim>\<open>finally\<close> clause would replace \<^verbatim>\<open>ex\<close>.
\<close>

fun result_loop ::
  "ResourceDetector list \<Rightarrow> (nat \<times> detection) list \<Rightarrow> Resource \<Rightarrow> Resource option
     \<Rightarrow> py_exception + Resource" where
  "result_loop detectors [] final_resource detected_resources = Inr final_resource"
| "result_loop detectors ((detector_ind, future) # futures) final_resource detected_resources =
     (let detector = detectors ! detector_ind in
      case future_result future of
        Inr r \<Rightarrow> result_loop detectors futures (merge final_resource r) (Some r)
      | Inl ex \<Rightarrow>
          if raise_on_error detector then
            (case detected_resources of
               None \<Rightarrow> Inl UnboundLocalError
             | Some r \<Rightarrow> Inl ex)
          else result_loop detectors futures (merge final_resource EMPTY_RESOURCE)
                 (Some EMPTY_RESOURCE))"

text \<open>
  \<^verbatim>\<open>initial_resource or _EMPTY_RESOURCE\<close>: a Resource object is always true (the class has
  neither \<^verbatim>\<open>__bool__\<close> nor \<^verbatim>\<open>__len__\<close>), so the empty resource is taken exactly when no
  initial resource is passed. \<^verbatim>\<open>executor.submit\<close> gives one future for each detector, in
  list order. The parameter \<^verbatim>\<open>timeout\<close> has no counterpart: what it decides is the
  outcome \<open>Pending\<close>.
\<close>

definition get_aggregated_resources ::
  "(string \<rightharpoonup> string) \<Rightarrow> ResourceDetector list \<Rightarrow> Resource option
     \<Rightarrow> py_exception + Resource" where
  "get_aggregated_resources environ detectors initial_resource =
     (let final_resource = (case initial_resource of None \<Rightarrow> EMPTY_RESOURCE | Some r \<Rightarrow> r);
          detectors = OTELResourceDetector environ # detectors;
          futures = map detect detectors
      in result_loop detectors (enumerate 0 futures) final_resource None)"

text \<open>
  Notions for stating the properties of the aggregation. The loop read along the list of
  detectors, each future next to its own detector (lemma \<open>result_loop_fold\<close> shows that
  \<open>result_loop\<close> computes it); the exception with which a detector aborts the aggregation,
  if it does; the resource that a detector adds to the running result; and the resource
  the fold starts from.
\<close>

fun fold_detectors ::
  "ResourceDetector list \<Rightarrow> Resource \<Rightarrow> Resource option \<Rightarrow> py_exception + Resource" where
  "fold_detectors [] final_resource detected_resources = Inr final_resource"
| "fold_detectors (detector # rest) final_resource detected_resources =
     (case future_result (detect detector) of
        Inr r \<Rightarrow> fold_detectors rest (merge final_resource r) (Some r)
      | Inl ex \<Rightarrow>
          if raise_on_error detector then
            (case detected_resources of
               None \<Rightarrow> Inl UnboundLocalError
             | Some r \<Rightarrow> Inl ex)
          else fold_detectors rest (merge final_resource EMPTY_RESOURCE) (Some EMPTY_RESOURCE))"

definition fatal_error :: "ResourceDetector \<Rightarrow> py_exception option" where
  "fatal_error detector =
     (case future_result (detect detector) of
        Inr r \<Rightarrow> None
      | Inl ex \<Rightarrow> if raise_on_error detector then Some ex else None)"

definition contribution :: "ResourceDetector \<Rightarrow> Resource" where
  "contribution detector =
     (case future_result (detect detector) of Inr r \<Rightarrow> r | Inl ex \<Rightarrow> EMPTY_RESOURCE)"

definition initial :: "Resource option \<Rightarrow> Resource" where
  "initial initial_resource = (case initial_resource of None \<Rightarrow> EMPTY_RESOURCE | Some r \<Rightarrow> r)"

subsection \<open>The environment detector in the words of the specification\<close>

text \<open>
  The specification's description of the environment detector, for comparison with
  \<open>OTELResourceDetector_detect\<close>: the value is split on commas, each entry is split on its
  first \<^verbatim>\<open>=\<close> into a key and a value, both are trimmed, and an entry without \<^verbatim>\<open>=\<close> fails
  the whole call.
\<close>

definition spec_entries :: "(string \<rightharpoonup> string) \<Rightarrow> string list" where
  "spec_entries environ =
     (case environ ''OTEL_RESOURCE_ATTRIBUTES'' of
        None \<Rightarrow> []
      | Some s \<Rightarrow> if s = [] then [] else str_split CHR '','' s)"

definition spec_split_first :: "string \<Rightarrow> py_exception + string \<times> string" where
  "spec_split_first entry =
     (if CHR ''='' \<in> set entry
      then Inr (takeWhile (\<lambda>c. c \<noteq> CHR ''='') entry, tl (dropWhile (\<lambda>c. c \<noteq> CHR ''='') entry))
      else Inl ValueError)"

fun spec_pairs :: "string list \<Rightarrow> Attributes \<Rightarrow> py_exception + Attributes" where
  "spec_pairs [] d = Inr d"
| "spec_pairs (entry # entries) d =
     (case spec_split_first entry of
        Inl ex \<Rightarrow> Inl ex
      | Inr (key, value) \<Rightarrow> spec_pairs entries (setitem (strip key) (StrV (strip value)) d))"

definition spec_detect :: "(string \<rightharpoonup> string) \<Rightarrow> py_exception + Resource" where
  "spec_detect environ =
     (case spec_pairs (spec_entries environ) [] of
        Inl ex \<Rightarrow> Inl ex
      | Inr d \<Rightarrow> Inr (Resource d))"

subsection \<open>Resources on a store\<close>

text \<open>
  Where copies matter, dictionaries are objects of a store: a reference is an index into
  the list of all dictionaries allocated so far, and a new dictionary is appended. A
  Resource object is the reference held by its field \<^verbatim>\<open>_attributes\<close>. Assigning into a
  dictionary through a reference \<open>r\<close> is \<open>h[r := d]\<close>.
\<close>

type_synonym ref = nat

type_synonym store = "Attributes list"

datatype ResourceObj = ResourceObj (attributes_ref: ref)

text \<open>\<^verbatim>\<open>d.copy()\<close> allocates a new dictionary with the entries of \<open>d\<close>.\<close>

definition dict_copy :: "store \<Rightarrow> ref \<Rightarrow> store \<times> ref" where
  "dict_copy h r = (h @ [h ! r], length h)"

text \<open>\<^verbatim>\<open>Resource(attributes)\<close>: \<^verbatim>\<open>self._attributes = attributes.copy()\<close>.\<close>

definition Resource_init :: "store \<Rightarrow> ref \<Rightarrow> store \<times> ResourceObj" where
  "Resource_init h attrs = (case dict_copy h attrs of (h', r) \<Rightarrow> (h', ResourceObj r))"

text \<open>The property \<^verbatim>\<open>attributes\<close>: \<^verbatim>\<open>return self._attributes.copy()\<close>.\<close>

definition Resource_attributes :: "store \<Rightarrow> ResourceObj \<Rightarrow> store \<times> ref" where
  "Resource_attributes h self = dict_copy h (attributes_ref self)"

text \<open>The loop of \<^verbatim>\<open>merge\<close>, assigning into the dictionary at \<open>merged_attributes\<close>.\<close>

fun Resource_merge_loop :: "store \<Rightarrow> ref \<Rightarrow> Attributes \<Rightarrow> store" where
  "Resource_merge_loop h merged_attributes [] = h"
| "Resource_merge_loop h merged_attributes ((key, value) # items) =
     Resource_merge_loop
       (case map_of (h ! merged_attributes) key of
          None \<Rightarrow> h[merged_attributes := setitem key value (h ! merged_attributes)]
        | Some v \<Rightarrow>
            if py_eq v (StrV [])
            then h[merged_attributes := setitem key value (h ! merged_attributes)]
            else h)
       merged_attributes items"

definition Resource_merge :: "store \<Rightarrow> ResourceObj \<Rightarrow> ResourceObj \<Rightarrow> store \<times> ResourceObj" where
  "Resource_merge h self other =
     (case Resource_attributes h self of
        (h1, merged_attributes) \<Rightarrow>
          Resource_init
            (Resource_merge_loop h1 merged_attributes (h1 ! attributes_ref other))
            merged_attributes)"

text \<open>\<^verbatim>\<open>Resource.create\<close> on the store; the global \<^verbatim>\<open>_DEFAULT_RESOURCE\<close> is the first argument.\<close>

definition Resource_create :: "ResourceObj \<Rightarrow> store \<Rightarrow> ref \<Rightarrow> store \<times> ResourceObj" where
  "Resource_create default_resource h attrs =
     (if h ! attrs = [] then (h, default_resource)
      else (case Resource_init h attrs of
              (h1, other) \<Rightarrow> Resource_merge h1 default_resource other))"

section \<open>Properties\<close>

subsection \<open>Dictionaries and merge\<close>

lemma map_of_setitem: "map_of (setitem k v d) = (map_of d)(k \<mapsto> v)"
  by (induction d) (auto simp: fun_eq_iff)

lemma keys_dom: "keys d = dom (map_of d)"
  by (simp add: keys_def dom_map_of_conv_image_fst)

lemma keys_simps: "keys [] = {}" "keys ((k, v) # d) = insert k (keys d)"
  by (simp_all add: keys_def)

lemma keys_setitem: "keys (setitem k v d) = insert k (keys d)"
  by (simp add: keys_dom map_of_setitem)

lemma map_fst_setitem:
  "map fst (setitem k v d) = (if k \<in> keys d then map fst d else map fst d @ [k])"
  by (induction d) (force simp: keys_def)+

lemma dict_ok_setitem: "dict_ok d \<Longrightarrow> dict_ok (setitem k v d)"
  by (simp add: dict_ok_def map_fst_setitem keys_def)

lemma setitem_fresh: "map_of d k = None \<Longrightarrow> setitem k v d = d @ [(k, v)]"
  by (induction d) (auto split: if_splits)

lemma py_eq_empty: "py_eq v (StrV []) \<longleftrightarrow> v = StrV []"
  by (cases v) auto

lemma map_of_merge_loop:
  "distinct (map fst items) \<Longrightarrow>
   map_of (merge_loop m items) k =
     (case map_of m k of
        None \<Rightarrow> map_of items k
      | Some v \<Rightarrow> if v = StrV [] then (case map_of items k of None \<Rightarrow> Some v | Some w \<Rightarrow> Some w)
                  else Some v)"
proof (induction items arbitrary: m)
  case Nil
  then show ?case by (simp split: option.splits)
next
  case (Cons p items)
  obtain key val where p: "p = (key, val)" by (cases p)
  from Cons.prems have d: "distinct (map fst items)" and nk: "key \<notin> fst ` set items"
    by (auto simp: p)
  have none: "map_of items key = None" using nk by (simp add: map_of_eq_None_iff)
  show ?case
    using none by (auto simp: p Cons.IH[OF d] map_of_setitem py_eq_empty split: option.splits)
qed

lemma keys_merge_loop: "keys (merge_loop m items) = keys m \<union> keys items"
proof (induction items arbitrary: m)
  case Nil
  then show ?case by (simp add: keys_def)
next
  case (Cons p items)
  obtain key val where p: "p = (key, val)" by (cases p)
  show ?case
  proof (cases "map_of m key")
    case None
    then show ?thesis by (simp add: p Cons.IH keys_setitem keys_simps)
  next
    case (Some v)
    then have "key \<in> keys m" by (auto simp: keys_dom)
    then show ?thesis using Some by (auto simp: p Cons.IH keys_setitem keys_simps)
  qed
qed

lemma merge_loop_fresh:
  "distinct (map fst items) \<Longrightarrow> keys m \<inter> keys items = {} \<Longrightarrow> merge_loop m items = m @ items"
proof (induction items arbitrary: m)
  case Nil
  then show ?case by simp
next
  case (Cons p items)
  obtain key val where p: "p = (key, val)" by (cases p)
  from Cons.prems have none: "map_of m key = None"
    by (auto simp: p keys_def map_of_eq_None_iff)
  have "keys (m @ [(key, val)]) \<inter> keys items = {}"
    using Cons.prems by (auto simp: p keys_def)
  moreover have "distinct (map fst items)" using Cons.prems by simp
  ultimately show ?case
    by (simp add: p none setitem_fresh Cons.IH)
qed

lemma merge_loop_keeps:
  "map_of m k = Some v \<Longrightarrow> v \<noteq> StrV [] \<Longrightarrow> map_of (merge_loop m items) k = Some v"
proof (induction items arbitrary: m)
  case Nil
  then show ?case by simp
next
  case (Cons p items)
  obtain key val where p: "p = (key, val)" by (cases p)
  show ?case
    using Cons.prems
    by (auto simp: p map_of_setitem py_eq_empty intro!: Cons.IH split: option.splits)
qed

lemma merge_EMPTY_right: "merge A EMPTY_RESOURCE = A"
  by (simp add: merge_def EMPTY_RESOURCE_def)

lemma merge_EMPTY_left: "dict_ok (attributes A) \<Longrightarrow> merge EMPTY_RESOURCE A = A"
  using merge_loop_fresh [of "attributes A" "[]"]
  by (simp add: merge_def EMPTY_RESOURCE_def dict_ok_def keys_def)

lemma py_eq_refl: "py_eq v v"
  by (cases v) auto

lemma dict_eq_refl: "dict_ok a \<Longrightarrow> dict_eq a a"
  by (auto simp: dict_eq_def dict_ok_def list_all_iff py_eq_refl)

text \<open>
  Claim C1. For all Resources \<open>A\<close> and \<open>B\<close>, the key set of \<open>A.merge(B)\<close> is the union of
  the key sets of \<open>A\<close> and \<open>B\<close>; a key of \<open>A\<close> whose value is not the empty string keeps
  \<open>A\<close>'s value; a key of \<open>A\<close> whose value is the empty string and that is a key of \<open>B\<close>
  gets \<open>B\<close>'s value; a key of \<open>B\<close> only gets \<open>B\<close>'s value. (\<open>B\<close>'s dictionary has
  pairwise distinct keys, as every Python dictionary has.)
\<close>

theorem merge_precedence:
  assumes "dict_ok (attributes B)"
  shows "keys (attributes (merge A B)) = keys (attributes A) \<union> keys (attributes B) \<and>
         (\<forall>k v. map_of (attributes A) k = Some v \<and> v \<noteq> StrV [] \<longrightarrow>
                map_of (attributes (merge A B)) k = Some v) \<and>
         (\<forall>k w. map_of (attributes A) k = Some (StrV []) \<and> map_of (attributes B) k = Some w \<longrightarrow>
                map_of (attributes (merge A B)) k = Some w) \<and>
         (\<forall>k w. map_of (attributes A) k = None \<and> map_of (attributes B) k = Some w \<longrightarrow>
                map_of (attributes (merge A B)) k = Some w)"
proof -
  have d: "distinct (map fst (attributes B))"
    using assms by (simp add: dict_ok_def)
  have "keys (attributes (merge A B)) = keys (attributes A) \<union> keys (attributes B)"
    by (simp add: merge_def keys_merge_loop)
  moreover have "map_of (attributes (merge A B)) k = Some v"
    if "map_of (attributes A) k = Some v" "v \<noteq> StrV []" for k v
    using that by (simp add: merge_def merge_loop_keeps)
  moreover have "map_of (attributes (merge A B)) k = Some w"
    if "map_of (attributes A) k = Some (StrV [])" "map_of (attributes B) k = Some w" for k w
    using that by (simp add: merge_def map_of_merge_loop [OF d])
  moreover have "map_of (attributes (merge A B)) k = Some w"
    if "map_of (attributes A) k = None" "map_of (attributes B) k = Some w" for k w
    using that by (simp add: merge_def map_of_merge_loop [OF d])
  ultimately show ?thesis by blast
qed

theorem merge_precedence_witness:
  "dict_ok [(''c'', BoolV True), (''a'', StrV ''x''), (''b'', IntV 2)] \<and>
   keys (attributes (merge (Resource [(''a'', StrV []), (''b'', IntV 1)])
           (Resource [(''c'', BoolV True), (''a'', StrV ''x''), (''b'', IntV 2)])))
     = {''a'', ''b'', ''c''} \<and>
   map_of (attributes (merge (Resource [(''a'', StrV []), (''b'', IntV 1)])
           (Resource [(''c'', BoolV True), (''a'', StrV ''x''), (''b'', IntV 2)]))) ''a''
     = Some (StrV ''x'') \<and>
   map_of (attributes (merge (Resource [(''a'', StrV []), (''b'', IntV 1)])
           (Resource [(''c'', BoolV True), (''a'', StrV ''x''), (''b'', IntV 2)]))) ''b''
     = Some (IntV 1) \<and>
   map_of (attributes (merge (Resource [(''a'', StrV []), (''b'', IntV 1)])
           (Resource [(''c'', BoolV True), (''a'', StrV ''x''), (''b'', IntV 2)]))) ''c''
     = Some (BoolV True)"
proof -
  have ok: "dict_ok (attributes (Resource [(''c'', BoolV True), (''a'', StrV ''x''), (''b'', IntV 2)]))"
    by (simp add: dict_ok_def)
  from merge_precedence [OF ok, of "Resource [(''a'', StrV []), (''b'', IntV 1)]"] ok
  show ?thesis
    by (auto simp: keys_def)
qed

text \<open>
  Claim C10. The empty resource returned by \<open>create_empty\<close> is a two-sided identity of
  \<open>merge\<close>: \<open>A.merge(create_empty())\<close> and \<open>create_empty().merge(A)\<close> are \<open>A\<close>, as
  values and under \<^verbatim>\<open>==\<close>. This is why substituting the empty resource for the result of a
  failed detector leaves the running result as it is.
\<close>

theorem merge_empty_identity:
  assumes "dict_ok (attributes A)"
  shows "merge A create_empty = A \<and> merge create_empty A = A \<and>
         Resource_eq (merge A create_empty) A \<and> Resource_eq (merge create_empty A) A"
proof -
  have r: "merge A create_empty = A"
    unfolding create_empty_def by (rule merge_EMPTY_right)
  have l: "merge create_empty A = A"
    unfolding create_empty_def using assms by (rule merge_EMPTY_left)
  show ?thesis
    using assms by (simp add: r l Resource_eq_def dict_eq_refl)
qed

theorem merge_empty_identity_witness:
  "dict_ok [(''a'', StrV []), (''b'', IntV 1)] \<and>
   merge (Resource [(''a'', StrV []), (''b'', IntV 1)]) create_empty
     = Resource [(''a'', StrV []), (''b'', IntV 1)] \<and>
   merge create_empty (Resource [(''a'', StrV []), (''b'', IntV 1)])
     = Resource [(''a'', StrV []), (''b'', IntV 1)]"
proof -
  have ok: "dict_ok (attributes (Resource [(''a'', StrV []), (''b'', IntV 1)]))"
    by (simp add: dict_ok_def)
  from merge_empty_identity [OF ok] ok show ?thesis by simp
qed

subsection \<open>The environment detector\<close>

lemma str_split_not_Nil: "str_split sep s \<noteq> []"
  by (induction s) (auto split: list.splits)

lemma length_str_split: "length (str_split sep s) = Suc (count_list s sep)"
  by (induction s) (auto split: list.splits simp: str_split_not_Nil)

lemma str_split_absent: "sep \<notin> set s \<Longrightarrow> str_split sep s = [s]"
  by (induction s) auto

lemma str_split_first:
  "sep \<in> set s \<Longrightarrow>
   str_split sep s =
     takeWhile (\<lambda>c. c \<noteq> sep) s # str_split sep (tl (dropWhile (\<lambda>c. c \<noteq> sep) s))"
  by (induction s) (auto split: list.splits simp: str_split_not_Nil)

lemma count_list_zero_iff: "count_list s c = 0 \<longleftrightarrow> c \<notin> set s"
  by (induction s) auto

lemma count_tl_dropWhile:
  "sep \<in> set s \<Longrightarrow> count_list s sep = Suc (count_list (tl (dropWhile (\<lambda>c. c \<noteq> sep) s)) sep)"
  by (induction s) auto

lemma unpack_not_two: "length parts \<noteq> 2 \<Longrightarrow> unpack parts = Inl ValueError"
  by (cases parts rule: unpack.cases) auto

lemma unpack_one_eq:
  assumes "count_list entry CHR ''='' \<le> 1"
  shows "unpack (str_split CHR ''='' entry) = spec_split_first entry"
proof (cases "CHR ''='' \<in> set entry")
  case False
  then show ?thesis by (simp add: str_split_absent spec_split_first_def)
next
  case True
  let ?r = "tl (dropWhile (\<lambda>c. c \<noteq> CHR ''='') entry)"
  from True assms have "count_list ?r CHR ''='' = 0"
    using count_tl_dropWhile [OF True] by simp
  then have "CHR ''='' \<notin> set ?r" by (simp add: count_list_zero_iff)
  then have "str_split CHR ''='' ?r = [?r]" by (rule str_split_absent)
  with True show ?thesis
    by (simp add: str_split_first [OF True] spec_split_first_def)
qed

lemma unpack_many_eq:
  assumes "2 \<le> count_list entry CHR ''=''"
  shows "unpack (str_split CHR ''='' entry) = Inl ValueError"
  using assms by (intro unpack_not_two) (simp add: length_str_split)

lemma spec_split_first_error: "spec_split_first entry = Inl ex \<Longrightarrow> ex = ValueError"
  by (auto simp: spec_split_first_def split: if_splits)

lemma dict_comprehension_spec:
  "dict_comprehension (map (str_split CHR ''='') entries) d =
     (if \<exists>entry \<in> set entries. 2 \<le> count_list entry CHR ''='' then Inl ValueError
      else spec_pairs entries d)"
proof (induction entries arbitrary: d)
  case Nil
  then show ?case by simp
next
  case (Cons entry entries)
  show ?case
  proof (cases "2 \<le> count_list entry CHR ''=''")
    case True
    then show ?thesis by (simp add: unpack_many_eq)
  next
    case False
    then have u: "unpack (str_split CHR ''='' entry) = spec_split_first entry"
      by (intro unpack_one_eq) simp
    show ?thesis
    proof (cases "spec_split_first entry")
      case (Inl ex)
      then have "ex = ValueError" by (rule spec_split_first_error)
      with Inl u False show ?thesis by simp
    next
      case (Inr kv)
      with u False show ?thesis by (cases kv) (simp add: Cons.IH)
    qed
  qed
qed

text \<open>
  Claim C4, as amended. For every value of \<^verbatim>\<open>OTEL_RESOURCE_ATTRIBUTES\<close>: when no entry of
  the comma-separated value holds two or more \<^verbatim>\<open>=\<close>, \<open>detect\<close> does what the
  specification says (each entry split at its \<^verbatim>\<open>=\<close>, key and value trimmed; an unset or
  empty variable gives a Resource with no attributes); when some entry holds two or more
  \<^verbatim>\<open>=\<close>, as \<^verbatim>\<open>k=a=b\<close> does, \<open>detect\<close> raises ValueError. The counterexample is the claim
  as it was stated, at \<^verbatim>\<open>k=a=b\<close>.
\<close>

theorem detect_one_equals_sign:
  "OTELResourceDetector_detect environ =
     (if \<exists>entry \<in> set (spec_entries environ). 2 \<le> count_list entry CHR ''=''
      then Inl ValueError else spec_detect environ) \<and>
   (environ ''OTEL_RESOURCE_ATTRIBUTES'' = None \<or> environ ''OTEL_RESOURCE_ATTRIBUTES'' = Some []
      \<longrightarrow> OTELResourceDetector_detect environ = Inr (Resource []))"
  by (auto simp: OTELResourceDetector_detect_def spec_detect_def spec_entries_def
        dict_comprehension_spec split: option.splits)

theorem detect_one_equals_sign_witness:
  "OTELResourceDetector_detect [''OTEL_RESOURCE_ATTRIBUTES'' \<mapsto> ''k = a , b=c,k=z'']
     = Inr (Resource [(''k'', StrV ''z''), (''b'', StrV ''c'')]) \<and>
   spec_detect [''OTEL_RESOURCE_ATTRIBUTES'' \<mapsto> ''k = a , b=c,k=z'']
     = Inr (Resource [(''k'', StrV ''z''), (''b'', StrV ''c'')])"
  using detect_one_equals_sign [of "[''OTEL_RESOURCE_ATTRIBUTES'' \<mapsto> ''k = a , b=c,k=z'']"]
  by (simp add: spec_detect_def spec_entries_def spec_split_first_def strip_def isspace_def)

theorem detect_first_equals_sign_counterexample:
  "OTELResourceDetector_detect [''OTEL_RESOURCE_ATTRIBUTES'' \<mapsto> ''k=a=b''] = Inl ValueError \<and>
   spec_detect [''OTEL_RESOURCE_ATTRIBUTES'' \<mapsto> ''k=a=b''] = Inr (Resource [(''k'', StrV ''a=b'')])"
  by (simp add: OTELResourceDetector_detect_def spec_detect_def spec_entries_def
        spec_split_first_def strip_def isspace_def)

text \<open>
  Claim C5. When \<^verbatim>\<open>OTEL_RESOURCE_ATTRIBUTES\<close> is not empty and one of its entries has no
  \<^verbatim>\<open>=\<close>, \<open>detect\<close> fails as a whole with ValueError: the entry is not skipped and no
  pairs are returned.
\<close>

theorem detect_missing_equals_sign:
  assumes "environ ''OTEL_RESOURCE_ATTRIBUTES'' = Some s" and "s \<noteq> []"
      and "entry \<in> set (str_split CHR '','' s)" and "CHR ''='' \<notin> set entry"
  shows "OTELResourceDetector_detect environ = Inl ValueError"
proof -
  have "dict_comprehension (map (str_split CHR ''='') entries) d = Inl ValueError"
    if "entry \<in> set entries" for entries d
    using that
  proof (induction entries arbitrary: d)
    case Nil
    then show ?case by simp
  next
    case (Cons e entries)
    show ?case
    proof (cases "unpack (str_split CHR ''='' e)")
      case (Inl ex)
      then have "ex = ValueError" by (cases "str_split CHR ''='' e" rule: unpack.cases) auto
      with Inl show ?thesis by simp
    next
      case (Inr kv)
      then have "e \<noteq> entry"
        using assms(4) by (auto simp: str_split_absent)
      with Cons.prems have "entry \<in> set entries" by simp
      with Inr show ?thesis by (cases kv) (simp add: Cons.IH)
    qed
  qed
  with assms show ?thesis
    by (simp add: OTELResourceDetector_detect_def)
qed

theorem detect_missing_equals_sign_witness:
  "[''OTEL_RESOURCE_ATTRIBUTES'' \<mapsto> ''a=1,b''] ''OTEL_RESOURCE_ATTRIBUTES'' = Some ''a=1,b'' \<and>
   ''a=1,b'' \<noteq> [] \<and> ''b'' \<in> set (str_split CHR '','' ''a=1,b'') \<and> CHR ''='' \<notin> set ''b'' \<and>
   OTELResourceDetector_detect [''OTEL_RESOURCE_ATTRIBUTES'' \<mapsto> ''a=1,b''] = Inl ValueError"
proof -
  have 1: "[''OTEL_RESOURCE_ATTRIBUTES'' \<mapsto> ''a=1,b''] ''OTEL_RESOURCE_ATTRIBUTES'' = Some ''a=1,b''"
    by simp
  have 2: "''a=1,b'' \<noteq> []" by simp
  have 3: "''b'' \<in> set (str_split CHR '','' ''a=1,b'')" by simp
  have 4: "CHR ''='' \<notin> set ''b''" by simp
  from detect_missing_equals_sign
         [of "[''OTEL_RESOURCE_ATTRIBUTES'' \<mapsto> ''a=1,b'']" "''a=1,b''" "''b''", OF 1 2 3 4]
       1 2 3 4
  show ?thesis by blast
qed

subsection \<open>Resource.create\<close>

text \<open>
  Claim C3. \<open>Resource.create(attributes)\<close> returns the default resource itself when the
  collection is empty (on the store: the same object, and nothing is allocated), and
  \<open>_DEFAULT_RESOURCE.merge(Resource(attributes))\<close> otherwise; so a key of the default map
  keeps the default value unless that value is the empty string, in which case the
  caller's value for the key, if there is one, is taken.
\<close>

theorem create_default_precedence:
  assumes "dict_ok attrs"
  shows "create v [] = DEFAULT_RESOURCE v \<and>
         (h ! a = [] \<longrightarrow> Resource_create default_resource h a = (h, default_resource)) \<and>
         (attrs \<noteq> [] \<longrightarrow> create v attrs = merge (DEFAULT_RESOURCE v) (Resource attrs)) \<and>
         (\<forall>k dv. map_of (attributes (DEFAULT_RESOURCE v)) k = Some dv \<and> dv \<noteq> StrV [] \<longrightarrow>
                 map_of (attributes (create v attrs)) k = Some dv) \<and>
         (\<forall>k w. map_of (attributes (DEFAULT_RESOURCE v)) k = Some (StrV []) \<and>
                map_of attrs k = Some w \<longrightarrow>
                map_of (attributes (create v attrs)) k = Some w)"
proof -
  have d: "distinct (map fst attrs)" using assms by (simp add: dict_ok_def)
  have "map_of (attributes (create v attrs)) k = Some dv"
    if "map_of (attributes (DEFAULT_RESOURCE v)) k = Some dv" "dv \<noteq> StrV []" for k dv
    using that by (simp add: create_def merge_def merge_loop_keeps)
  moreover have "map_of (attributes (create v attrs)) k = Some w"
    if "map_of (attributes (DEFAULT_RESOURCE v)) k = Some (StrV [])" "map_of attrs k = Some w"
    for k w
    using that by (auto simp: create_def merge_def map_of_merge_loop [OF d])
  ultimately show ?thesis
    by (simp add: create_def Resource_create_def)
qed

theorem create_default_precedence_witness:
  "dict_ok [(''x'', StrV ''y''), (''telemetry.sdk.name'', StrV ''mine'')] \<and>
   create ''1.0'' [(''x'', StrV ''y''), (''telemetry.sdk.name'', StrV ''mine'')] =
     Resource [(''telemetry.sdk.language'', StrV ''python''),
               (''telemetry.sdk.name'', StrV ''opentelemetry''),
               (''telemetry.sdk.version'', StrV ''1.0''), (''x'', StrV ''y'')] \<and>
   create [] [(''telemetry.sdk.version'', StrV ''2'')] =
     Resource [(''telemetry.sdk.language'', StrV ''python''),
               (''telemetry.sdk.name'', StrV ''opentelemetry''),
               (''telemetry.sdk.version'', StrV ''2'')]"
proof -
  have ok: "dict_ok [(''x'', StrV ''y''), (''telemetry.sdk.name'', StrV ''mine'')]"
    by (simp add: dict_ok_def)
  from create_default_precedence [OF ok, of "''1.0''"] ok show ?thesis
    by (simp add: create_def merge_def DEFAULT_RESOURCE_def TELEMETRY_SDK_LANGUAGE_def
        TELEMETRY_SDK_NAME_def TELEMETRY_SDK_VERSION_def)
qed

subsection \<open>Aggregation\<close>

lemma result_loop_fold:
  "result_loop (pre @ ds) (enumerate (length pre) (map detect ds)) final det
     = fold_detectors ds final det"
proof (induction ds arbitrary: pre final det)
  case Nil
  then show ?case by simp
next
  case (Cons d ds)
  have "result_loop ((pre @ [d]) @ ds) (enumerate (length (pre @ [d])) (map detect ds)) f x
          = fold_detectors ds f x" for f x
    by (rule Cons.IH)
  then show ?case
    by (simp add: Let_def split: sum.splits)
qed

lemma get_aggregated_resources_fold:
  "get_aggregated_resources environ ds init
     = fold_detectors (OTELResourceDetector environ # ds) (initial init) None"
  using result_loop_fold [of "[]" "OTELResourceDetector environ # ds" "initial init" None]
  by (simp add: get_aggregated_resources_def initial_def Let_def del: result_loop.simps fold_detectors.simps)

lemma otel_not_fatal: "fatal_error (OTELResourceDetector environ) = None"
  by (simp add: fatal_error_def OTELResourceDetector_def split: sum.splits)

lemma fold_detectors_contained:
  "list_all (\<lambda>p. fatal_error p = None) ds \<Longrightarrow>
   fold_detectors ds final det = Inr (foldl merge final (map contribution ds))"
  by (induction ds arbitrary: final det)
     (auto simp: fatal_error_def contribution_def split: sum.splits if_splits)

lemma fold_detectors_fatal:
  "list_all (\<lambda>p. fatal_error p = None) pre \<Longrightarrow> fatal_error d = Some ex \<Longrightarrow>
   fold_detectors (pre @ d # post) final det =
     (if pre = [] \<and> det = None then Inl UnboundLocalError else Inl ex)"
proof (induction pre arbitrary: final det)
  case Nil
  then show ?case
    by (auto simp: fatal_error_def split: sum.splits if_splits option.splits)
next
  case (Cons p pre)
  from Cons.prems have "list_all (\<lambda>p. fatal_error p = None) pre" by simp
  note ih = Cons.IH [OF this Cons.prems(2)]
  have "fold_detectors (pre @ d # post) f (Some r) = Inl ex" for f r
    by (simp add: ih)
  with Cons.prems(1) show ?case
    by (auto simp: fatal_error_def split: sum.splits if_splits)
qed

lemma dict_comprehension_ok:
  "dict_comprehension xs d = Inr d' \<Longrightarrow> dict_ok d \<Longrightarrow> dict_ok d'"
proof (induction xs arbitrary: d)
  case Nil
  then show ?case by simp
next
  case (Cons parts xs)
  show ?case
  proof (cases "unpack parts")
    case (Inl ex)
    with Cons.prems show ?thesis by simp
  next
    case (Inr kv)
    obtain key val where kv: "kv = (key, val)" by (cases kv)
    from Cons.prems(1) Inr kv
    have "dict_comprehension xs (setitem (strip key) (StrV (strip val)) d) = Inr d'"
      by simp
    moreover have "dict_ok (setitem (strip key) (StrV (strip val)) d)"
      using Cons.prems(2) by (rule dict_ok_setitem)
    ultimately show ?thesis by (rule Cons.IH)
  qed
qed

lemma detect_ok:
  assumes "OTELResourceDetector_detect environ = Inr r"
  shows "dict_ok (attributes r)"
proof (cases "environ ''OTEL_RESOURCE_ATTRIBUTES''")
  case None
  with assms show ?thesis
    by (auto simp: OTELResourceDetector_detect_def dict_ok_def)
next
  case (Some s)
  show ?thesis
  proof (cases "s = []")
    case True
    with Some assms show ?thesis
      by (auto simp: OTELResourceDetector_detect_def dict_ok_def)
  next
    case False
    with Some assms
    have "dict_comprehension (map (str_split CHR ''='') (str_split CHR '','' s)) []
            = Inr (attributes r)"
      by (auto simp: OTELResourceDetector_detect_def split: sum.splits)
    moreover have "dict_ok []" by (simp add: dict_ok_def)
    ultimately show ?thesis by (rule dict_comprehension_ok)
  qed
qed

lemma otel_contribution:
  "OTELResourceDetector_detect environ = Inr r0 \<Longrightarrow> contribution (OTELResourceDetector environ) = r0"
  by (simp add: contribution_def OTELResourceDetector_def)

lemma returns_not_fatal: "detect d = Returns r \<Longrightarrow> fatal_error d = None"
  by (simp add: fatal_error_def)

lemma returns_contribution: "detect d = Returns r \<Longrightarrow> contribution d = r"
  by (simp add: contribution_def)

lemma all_return:
  "map detect ds = map Returns rs \<Longrightarrow>
   list_all (\<lambda>p. fatal_error p = None) ds \<and> map contribution ds = rs"
proof (induction ds arbitrary: rs)
  case Nil
  then show ?case by simp
next
  case (Cons d ds)
  then obtain r rs' where rs: "rs = r # rs'" "detect d = Returns r" "map detect ds = map Returns rs'"
    by (cases rs) auto
  with Cons.IH [of rs'] show ?case
    by (simp add: returns_not_fatal returns_contribution)
qed

lemma first_fatal:
  assumes "d \<in> set ds" and "fatal_error d = Some ex"
  shows "\<exists>pre d' post ex'. ds = pre @ d' # post \<and> list_all (\<lambda>p. fatal_error p = None) pre \<and>
           fatal_error d' = Some ex'"
proof -
  from assms have "\<exists>x \<in> set ds. fatal_error x \<noteq> None" by auto
  then obtain pre d' post where "ds = pre @ d' # post" "fatal_error d' \<noteq> None"
      "\<forall>p \<in> set pre. \<not> fatal_error p \<noteq> None"
    by (auto dest!: split_list_first_prop)
  then show ?thesis by (auto simp: list_all_iff)
qed

lemma aggregate_fatal:
  assumes "list_all (\<lambda>p. fatal_error p = None) pre" and "fatal_error d = Some ex"
  shows "get_aggregated_resources environ (pre @ d # post) init = Inl ex"
proof -
  have "list_all (\<lambda>p. fatal_error p = None) (OTELResourceDetector environ # pre)"
    using assms(1) by (simp add: otel_not_fatal)
  from fold_detectors_fatal [OF this assms(2), of post "initial init" None]
  show ?thesis by (simp add: get_aggregated_resources_fold)
qed

text \<open>Every exception that the aggregation raises is the exception of a detector with
  \<^verbatim>\<open>raise_on_error\<close> (so the UnboundLocalError of the \<^verbatim>\<open>finally\<close> clause never occurs), and a
  malformed environment variable is contained like any other failure without
  \<^verbatim>\<open>raise_on_error\<close>.\<close>

lemma aggregate_raises_fatal_only:
  assumes "get_aggregated_resources environ ds init = Inl ex"
  shows "\<exists>d \<in> set ds. fatal_error d = Some ex"
proof (cases "list_all (\<lambda>p. fatal_error p = None) ds")
  case True
  then have "list_all (\<lambda>p. fatal_error p = None) (OTELResourceDetector environ # ds)"
    by (simp add: otel_not_fatal)
  from fold_detectors_contained [OF this] assms show ?thesis
    by (simp add: get_aggregated_resources_fold)
next
  case False
  then obtain d ex0 where "d \<in> set ds" "fatal_error d = Some ex0"
    by (auto simp: list_all_iff)
  from first_fatal [OF this] obtain pre d' post ex'
    where s: "ds = pre @ d' # post" "list_all (\<lambda>p. fatal_error p = None) pre"
      "fatal_error d' = Some ex'"
    by blast
  from aggregate_fatal [OF s(2,3), of environ post init] assms s(1) have "ex' = ex" by simp
  with s(1,3) show ?thesis by auto
qed

lemma malformed_environment_contained:
  assumes "OTELResourceDetector_detect environ = Inl ex"
  shows "get_aggregated_resources environ ds init = get_aggregated_resources Map.empty ds init"
proof -
  have "OTELResourceDetector_detect Map.empty = Inr EMPTY_RESOURCE"
    by (simp add: OTELResourceDetector_detect_def EMPTY_RESOURCE_def)
  then show ?thesis
    using assms
    by (simp add: get_aggregated_resources_fold OTELResourceDetector_def)
qed


text \<open>
  Claim C2. When the environment detector and every detector of \<open>ds\<close> return a resource
  (no exception, no timeout), \<open>get_aggregated_resources(ds, r, timeout)\<close> returns the left
  fold of \<open>merge\<close>, starting from \<open>r\<close> (the empty resource when none is passed), over the
  result of the environment detector and then the results of \<open>ds\<close> in the caller's order.
  Each future is read by its position in the list, so the order in which the calls
  complete has no part in the result. In particular, without detectors and without an
  initial resource the result is the empty resource merged with the result of the
  environment detector, which is that result itself: no default SDK attribute is added.
\<close>

theorem aggregation_is_left_fold:
  assumes "OTELResourceDetector_detect environ = Inr r0"
      and "map detect ds = map Returns rs"
  shows "get_aggregated_resources environ ds initial_resource =
           Inr (foldl merge (case initial_resource of None \<Rightarrow> create_empty | Some r \<Rightarrow> r)
                  (r0 # rs)) \<and>
         get_aggregated_resources environ [] None = Inr (merge create_empty r0) \<and>
         merge create_empty r0 = r0"
proof -
  have nf: "list_all (\<lambda>p. fatal_error p = None) (OTELResourceDetector environ # ds)"
    using all_return [OF assms(2)] by (simp add: otel_not_fatal)
  have c: "map contribution (OTELResourceDetector environ # ds) = r0 # rs"
    using all_return [OF assms(2)] otel_contribution [OF assms(1)] by simp
  have 1: "get_aggregated_resources environ ds initial_resource =
             Inr (foldl merge (initial initial_resource) (r0 # rs))"
    unfolding get_aggregated_resources_fold fold_detectors_contained [OF nf] c ..
  have nf0: "list_all (\<lambda>p. fatal_error p = None) [OTELResourceDetector environ]"
    by (simp add: otel_not_fatal)
  have 2: "get_aggregated_resources environ [] None = Inr (merge EMPTY_RESOURCE r0)"
    unfolding get_aggregated_resources_fold fold_detectors_contained [OF nf0]
    using otel_contribution [OF assms(1)] by (simp add: initial_def)
  have 3: "merge EMPTY_RESOURCE r0 = r0"
    using detect_ok [OF assms(1)] by (rule merge_EMPTY_left)
  show ?thesis
    unfolding create_empty_def using 1 2 3 by (simp add: initial_def)
qed

theorem aggregation_is_left_fold_witness:
  "OTELResourceDetector_detect [''OTEL_RESOURCE_ATTRIBUTES'' \<mapsto> ''a=0,e=5'']
     = Inr (Resource [(''a'', StrV ''0''), (''e'', StrV ''5'')]) \<and>
   map detect
     [\<lparr>raise_on_error = False, detect = Returns (Resource [(''a'', StrV ''1'')])\<rparr>,
      \<lparr>raise_on_error = True, detect = Returns (Resource [(''a'', StrV ''2''), (''b'', StrV ''3'')])\<rparr>]
     = map Returns [Resource [(''a'', StrV ''1'')], Resource [(''a'', StrV ''2''), (''b'', StrV ''3'')]] \<and>
   get_aggregated_resources [''OTEL_RESOURCE_ATTRIBUTES'' \<mapsto> ''a=0,e=5'']
     [\<lparr>raise_on_error = False, detect = Returns (Resource [(''a'', StrV ''1'')])\<rparr>,
      \<lparr>raise_on_error = True, detect = Returns (Resource [(''a'', StrV ''2''), (''b'', StrV ''3'')])\<rparr>]
     (Some (Resource [(''e'', StrV []), (''z'', BoolV False)]))
     = Inr (Resource [(''e'', StrV ''5''), (''z'', BoolV False), (''a'', StrV ''0''), (''b'', StrV ''3'')])"
proof -
  have 1: "OTELResourceDetector_detect [''OTEL_RESOURCE_ATTRIBUTES'' \<mapsto> ''a=0,e=5'']
     = Inr (Resource [(''a'', StrV ''0''), (''e'', StrV ''5'')])"
    by (simp add: OTELResourceDetector_detect_def strip_def isspace_def)
  have 2: "map detect
     [\<lparr>raise_on_error = False, detect = Returns (Resource [(''a'', StrV ''1'')])\<rparr>,
      \<lparr>raise_on_error = True, detect = Returns (Resource [(''a'', StrV ''2''), (''b'', StrV ''3'')])\<rparr>]
     = map Returns [Resource [(''a'', StrV ''1'')], Resource [(''a'', StrV ''2''), (''b'', StrV ''3'')]]"
    by simp
  from aggregation_is_left_fold [OF 1 2, of "Some (Resource [(''e'', StrV []), (''z'', BoolV False)])"] 1 2
  show ?thesis
    by (simp add: merge_def)
qed

text \<open>
  Claim C6. When the list holds a detector with \<open>raise_on_error\<close> whose call raises or
  times out, \<open>get_aggregated_resources\<close> raises and returns no Resource: the exception is
  that of the first such detector in list order, so it is the exception of \<open>d\<close> itself
  when no such detector stands before \<open>d\<close>. The caller gets the exception only, no partly
  merged resource.
\<close>

theorem fatal_detector_raises:
  assumes "d \<in> set ds" and "raise_on_error d" and "future_result (detect d) = Inl ex"
  shows "(\<exists>pre d' post ex'. ds = pre @ d' # post \<and>
            list_all (\<lambda>p. fatal_error p = None) pre \<and>
            raise_on_error d' \<and> future_result (detect d') = Inl ex' \<and>
            get_aggregated_resources environ ds initial_resource = Inl ex') \<and>
         (list_all (\<lambda>p. fatal_error p = None) (takeWhile (\<lambda>p. p \<noteq> d) ds) \<longrightarrow>
            get_aggregated_resources environ ds initial_resource = Inl ex)"
proof -
  have f: "fatal_error d = Some ex"
    using assms(2,3) by (simp add: fatal_error_def)
  from first_fatal [OF assms(1) f] obtain pre d' post ex'
    where s: "ds = pre @ d' # post" "list_all (\<lambda>p. fatal_error p = None) pre"
      "fatal_error d' = Some ex'"
    by blast
  from s(3) have "raise_on_error d' \<and> future_result (detect d') = Inl ex'"
    by (auto simp: fatal_error_def split: sum.splits if_splits)
  moreover have "get_aggregated_resources environ ds initial_resource = Inl ex'"
    unfolding s(1) using s(2,3) by (rule aggregate_fatal)
  ultimately have 1: "\<exists>pre d' post ex'. ds = pre @ d' # post \<and>
            list_all (\<lambda>p. fatal_error p = None) pre \<and>
            raise_on_error d' \<and> future_result (detect d') = Inl ex' \<and>
            get_aggregated_resources environ ds initial_resource = Inl ex'"
    using s(1,2) by blast
  have 2: "get_aggregated_resources environ ds initial_resource = Inl ex"
    if "list_all (\<lambda>p. fatal_error p = None) (takeWhile (\<lambda>p. p \<noteq> d) ds)"
  proof -
    have "ds = takeWhile (\<lambda>p. p \<noteq> d) ds @ d # tl (dropWhile (\<lambda>p. p \<noteq> d) ds)"
      using assms(1)
      by (metis (mono_tags, lifting) dropWhile_eq_Nil_conv hd_dropWhile list.collapse
          takeWhile_dropWhile_id)
    then show ?thesis
      using aggregate_fatal [OF that f] by metis
  qed
  from 1 2 show ?thesis by blast
qed

theorem fatal_detector_raises_witness:
  "\<lparr>raise_on_error = True, detect = Pending\<rparr>
     \<in> set [\<lparr>raise_on_error = False, detect = Returns (Resource [(''a'', StrV ''1'')])\<rparr>,
            \<lparr>raise_on_error = False, detect = Raises (DetectorError ''x'')\<rparr>,
            \<lparr>raise_on_error = True, detect = Pending\<rparr>,
            \<lparr>raise_on_error = True, detect = Raises (DetectorError ''y'')\<rparr>] \<and>
   raise_on_error \<lparr>raise_on_error = True, detect = Pending\<rparr> \<and>
   future_result (detect \<lparr>raise_on_error = True, detect = Pending\<rparr>) = Inl TimeoutError \<and>
   get_aggregated_resources Map.empty
     [\<lparr>raise_on_error = False, detect = Returns (Resource [(''a'', StrV ''1'')])\<rparr>,
      \<lparr>raise_on_error = False, detect = Raises (DetectorError ''x'')\<rparr>,
      \<lparr>raise_on_error = True, detect = Pending\<rparr>,
      \<lparr>raise_on_error = True, detect = Raises (DetectorError ''y'')\<rparr>] None
     = Inl TimeoutError"
proof -
  let ?d = "\<lparr>raise_on_error = True, detect = Pending\<rparr>"
  let ?ds = "[\<lparr>raise_on_error = False, detect = Returns (Resource [(''a'', StrV ''1'')])\<rparr>,
              \<lparr>raise_on_error = False, detect = Raises (DetectorError ''x'')\<rparr>,
              ?d,
              \<lparr>raise_on_error = True, detect = Raises (DetectorError ''y'')\<rparr>]"
  have 1: "?d \<in> set ?ds" by simp
  have 2: "raise_on_error ?d" by simp
  have 3: "future_result (detect ?d) = Inl TimeoutError" by simp
  have 4: "list_all (\<lambda>p. fatal_error p = None) (takeWhile (\<lambda>p. p \<noteq> ?d) ?ds)"
    by (simp add: fatal_error_def)
  from fatal_detector_raises [OF 1 2 3, of Map.empty None] 4
  have "get_aggregated_resources Map.empty ?ds None = Inl TimeoutError" by blast
  with 1 2 3 show ?thesis by blast
qed



subsection \<open>Resources on the store\<close>

lemma Resource_merge_loop_eq:
  "m < length h \<Longrightarrow>
   Resource_merge_loop h m items = h[m := merge_loop (h ! m) items]"
proof (induction items arbitrary: h)
  case Nil
  then show ?case by simp
next
  case (Cons p items)
  obtain key val where p: "p = (key, val)" by (cases p)
  show ?case
    using Cons.prems by (simp add: p Cons.IH split: option.splits)
qed

lemma Resource_merge_eq:
  assumes "attributes_ref A < length h" and "attributes_ref B < length h"
  shows "Resource_merge h A B =
           (h @ [merge_loop (h ! attributes_ref A) (h ! attributes_ref B),
                 merge_loop (h ! attributes_ref A) (h ! attributes_ref B)],
            ResourceObj (Suc (length h)))"
  using assms
  by (simp add: Resource_merge_def Resource_attributes_def Resource_init_def dict_copy_def
      Resource_merge_loop_eq nth_append)

text \<open>
  Claim C8. A Resource is never mutated after construction. On the store: \<open>A.merge(B)\<close>
  leaves every dictionary that existed before as it was, those of \<open>A\<close> and \<open>B\<close> among
  them, and its result holds a new dictionary with the merged entries; the dictionary
  returned by the accessor \<open>attributes\<close> is a new object with the same entries, so
  assigning to it changes nothing in \<open>A\<close>; and the dictionary stored by the constructor is
  a new object too, so assigning to the dictionary that was passed in changes nothing in
  the Resource.
\<close>

theorem resource_never_mutated:
  assumes "attributes_ref A < length h" and "attributes_ref B < length h" and "a < length h"
  shows "(case Resource_merge h A B of
            (h', C) \<Rightarrow>
              take (length h) h' = h \<and>
              h' ! attributes_ref A = h ! attributes_ref A \<and>
              h' ! attributes_ref B = h ! attributes_ref B \<and>
              length h \<le> attributes_ref C \<and> attributes_ref C < length h' \<and>
              Resource (h' ! attributes_ref C) =
                merge (Resource (h ! attributes_ref A)) (Resource (h ! attributes_ref B))) \<and>
         (case Resource_attributes h A of
            (h', r) \<Rightarrow>
              take (length h) h' = h \<and> r \<noteq> attributes_ref A \<and>
              h' ! r = h ! attributes_ref A \<and>
              (\<forall>d. (h'[r := d]) ! attributes_ref A = h ! attributes_ref A)) \<and>
         (case Resource_init h a of
            (h', R) \<Rightarrow>
              take (length h) h' = h \<and> attributes_ref R \<noteq> a \<and>
              h' ! attributes_ref R = h ! a \<and>
              (\<forall>d. (h'[a := d]) ! attributes_ref R = h ! a))"
proof -
  have 1: "case Resource_merge h A B of
            (h', C) \<Rightarrow>
              take (length h) h' = h \<and>
              h' ! attributes_ref A = h ! attributes_ref A \<and>
              h' ! attributes_ref B = h ! attributes_ref B \<and>
              length h \<le> attributes_ref C \<and> attributes_ref C < length h' \<and>
              Resource (h' ! attributes_ref C) =
                merge (Resource (h ! attributes_ref A)) (Resource (h ! attributes_ref B))"
    using assms(1,2) by (simp add: Resource_merge_eq nth_append merge_def)
  have 2: "case Resource_attributes h A of
            (h', r) \<Rightarrow>
              take (length h) h' = h \<and> r \<noteq> attributes_ref A \<and>
              h' ! r = h ! attributes_ref A \<and>
              (\<forall>d. (h'[r := d]) ! attributes_ref A = h ! attributes_ref A)"
    using assms(1) by (simp add: Resource_attributes_def dict_copy_def nth_append)
  have 3: "case Resource_init h a of
            (h', R) \<Rightarrow>
              take (length h) h' = h \<and> attributes_ref R \<noteq> a \<and>
              h' ! attributes_ref R = h ! a \<and>
              (\<forall>d. (h'[a := d]) ! attributes_ref R = h ! a)"
    using assms(3) by (simp add: Resource_init_def dict_copy_def nth_append)
  from 1 2 3 show ?thesis by blast
qed

theorem resource_never_mutated_witness:
  "attributes_ref (ResourceObj 0) < length [[(''a'', StrV []), (''b'', IntV 1)], [(''a'', StrV ''x'')]] \<and>
   attributes_ref (ResourceObj 1) < length [[(''a'', StrV []), (''b'', IntV 1)], [(''a'', StrV ''x'')]] \<and>
   (1::nat) < length [[(''a'', StrV []), (''b'', IntV 1)], [(''a'', StrV ''x'')]] \<and>
   Resource_merge [[(''a'', StrV []), (''b'', IntV 1)], [(''a'', StrV ''x'')]]
       (ResourceObj 0) (ResourceObj 1)
     = ([[(''a'', StrV []), (''b'', IntV 1)], [(''a'', StrV ''x'')],
         [(''a'', StrV ''x''), (''b'', IntV 1)], [(''a'', StrV ''x''), (''b'', IntV 1)]],
        ResourceObj 3) \<and>
   Resource_attributes [[(''a'', StrV []), (''b'', IntV 1)], [(''a'', StrV ''x'')]] (ResourceObj 0)
     = ([[(''a'', StrV []), (''b'', IntV 1)], [(''a'', StrV ''x'')], [(''a'', StrV []), (''b'', IntV 1)]], 2) \<and>
   Resource_init [[(''a'', StrV []), (''b'', IntV 1)], [(''a'', StrV ''x'')]] 1
     = ([[(''a'', StrV []), (''b'', IntV 1)], [(''a'', StrV ''x'')], [(''a'', StrV ''x'')]], ResourceObj 2)"
proof -
  let ?h = "[[(''a'', StrV []), (''b'', IntV 1)], [(''a'', StrV ''x'')]]"
  have 1: "attributes_ref (ResourceObj 0) < length ?h" by simp
  have 2: "attributes_ref (ResourceObj 1) < length ?h" by simp
  have 3: "(1::nat) < length ?h" by simp
  from resource_never_mutated [OF 1 2 3] show ?thesis
    by (simp add: Resource_merge_def Resource_attributes_def Resource_init_def dict_copy_def)
qed

subsection \<open>Equality and hash\<close>

lemma card_keys: "dict_ok a \<Longrightarrow> card (keys a) = length a"
  using distinct_card [of "map fst a"] by (simp add: keys_def dict_ok_def)

lemma dict_eq_iff:
  assumes "dict_ok a" and "dict_ok b"
  shows "dict_eq a b \<longleftrightarrow> (\<forall>k. rel_option py_eq (map_of a k) (map_of b k))"
proof
  assume e: "dict_eq a b"
  then have len: "length a = length b"
    and all: "\<forall>(k, v) \<in> set a. case map_of b k of None \<Rightarrow> False | Some w \<Rightarrow> py_eq v w"
    by (auto simp: dict_eq_def list_all_iff)
  have sub: "keys a \<subseteq> keys b"
  proof
    fix k assume "k \<in> keys a"
    then obtain v where "(k, v) \<in> set a" by (auto simp: keys_def)
    with all have "map_of b k \<noteq> None" by (auto split: option.splits)
    then show "k \<in> keys b" by (auto simp: keys_dom)
  qed
  have "finite (keys b)" by (simp add: keys_def)
  moreover have "card (keys a) = card (keys b)"
    using assms len by (simp add: card_keys)
  ultimately have keq: "keys a = keys b"
    using sub by (metis card_subset_eq)
  show "\<forall>k. rel_option py_eq (map_of a k) (map_of b k)"
  proof
    fix k
    show "rel_option py_eq (map_of a k) (map_of b k)"
    proof (cases "map_of a k")
      case None
      then have "k \<notin> keys b" using keq by (auto simp: keys_dom)
      then have "map_of b k = None" by (auto simp: keys_dom)
      with None show ?thesis by simp
    next
      case (Some v)
      then have "(k, v) \<in> set a" by (rule map_of_SomeD)
      with all Some show ?thesis by (auto split: option.splits)
    qed
  qed
next
  assume r: "\<forall>k. rel_option py_eq (map_of a k) (map_of b k)"
  have "keys a = keys b"
  proof -
    have "map_of a k = None \<longleftrightarrow> map_of b k = None" for k
      using r [rule_format, of k] by (cases "map_of a k"; cases "map_of b k") auto
    then show ?thesis by (auto simp: keys_dom dom_def)
  qed
  then have "length a = length b"
    using assms card_keys [of a] card_keys [of b] by simp
  moreover have "case map_of b k of None \<Rightarrow> False | Some w \<Rightarrow> py_eq v w"
    if "(k, v) \<in> set a" for k v
  proof -
    from that assms(1) have "map_of a k = Some v" by (simp add: dict_ok_def)
    with r [rule_format, of k] show ?thesis
      by (cases "map_of b k") auto
  qed
  ultimately show "dict_eq a b"
    by (auto simp: dict_eq_def list_all_iff)
qed

lemma filter_key_unique:
  "distinct (map fst xs) \<Longrightarrow> k \<in> set xs \<Longrightarrow> filter (\<lambda>x. fst k = fst x) xs = [k]"
proof (induction xs)
  case Nil
  then show ?case by simp
next
  case (Cons x xs)
  from Cons.prems(1) have nx: "fst x \<notin> fst ` set xs" and d: "distinct (map fst xs)"
    by simp_all
  show ?case
  proof (cases "x = k")
    case True
    have "filter (\<lambda>y. fst k = fst y) xs = []"
      unfolding filter_empty_conv using nx True by (metis imageI)
    with True show ?thesis by simp
  next
    case False
    with Cons.prems(2) have k: "k \<in> set xs" by simp
    then have "fst k \<in> fst ` set xs" by (rule imageI)
    with nx have "fst k \<noteq> fst x" by metis
    with Cons.IH [OF d k] show ?thesis by simp
  qed
qed

lemma sort_key_unique:
  assumes "dict_ok a" and "dict_ok b" and "map_of a = map_of b"
  shows "sort_key fst a = sort_key fst b"
proof -
  have da: "distinct (map fst a)" and db: "distinct (map fst b)"
    using assms by (simp_all add: dict_ok_def)
  have s: "set a = set b"
    using assms(3) da db by (simp add: map_of_inject_set)
  have "distinct a" "distinct b" using da db by (simp_all add: distinct_map)
  with s have m: "mset a = mset b" by (simp add: set_eq_iff_mset_eq_distinct)
  have "mset (map fst (sort_key fst b)) = mset (map fst b)" by simp
  from mset_eq_imp_distinct_iff [OF this] db
  have ds: "distinct (map fst (sort_key fst b))" by blast
  show ?thesis
  proof (rule properties_for_sort_key)
    show "mset (sort_key fst b) = mset a" using m by simp
    show "sorted (map fst (sort_key fst b))" by simp
    show "filter (\<lambda>x. fst k = fst x) (sort_key fst b) = filter (\<lambda>x. fst k = fst x) a"
      if "k \<in> set (sort_key fst b)" for k
    proof -
      have "k \<in> set a" using that s by simp
      with da have "filter (\<lambda>x. fst k = fst x) a = [k]" by (rule filter_key_unique)
      moreover from ds that have "filter (\<lambda>x. fst k = fst x) (sort_key fst b) = [k]"
        by (rule filter_key_unique)
      ultimately show ?thesis by simp
    qed
  qed
qed

lemma dumps_order_independent:
  "dict_ok a \<Longrightarrow> dict_ok b \<Longrightarrow> map_of a = map_of b \<Longrightarrow> dumps float_repr a = dumps float_repr b"
  using sort_key_unique [of a b] by (simp add: dumps_def)

lemma hash_of_equal_same_values:
  assumes "dict_ok a" and "dict_ok b" and "dict_eq a b"
      and "\<And>k v w. map_of a k = Some v \<Longrightarrow> map_of b k = Some w \<Longrightarrow> py_eq v w \<Longrightarrow> v = w"
  shows "Resource_hash hash float_repr (Resource a) = Resource_hash hash float_repr (Resource b)"
proof -
  have "map_of a k = map_of b k" for k
  proof -
    from dict_eq_iff [OF assms(1,2)] assms(3)
    have r: "rel_option py_eq (map_of a k) (map_of b k)" by blast
    show ?thesis
    proof (cases "map_of a k")
      case None
      with r show ?thesis by (cases "map_of b k") auto
    next
      case (Some v)
      with r obtain w where w: "map_of b k = Some w" "py_eq v w"
        by (cases "map_of b k") auto
      with Some assms(4) [of k v w] show ?thesis by simp
    qed
  qed
  then have "map_of a = map_of b" by (rule ext)
  from dumps_order_independent [OF assms(1,2) this]
  show ?thesis by (simp add: Resource_hash_def)
qed

text \<open>
  Claim C9. Equality of Resources does not depend on the insertion order (lemma
  \<open>dict_eq_iff\<close>), nor does the hash (lemma \<open>dumps_order_independent\<close>), and equal
  Resources have equal hashes when values that compare equal are the same value (lemma
  \<open>hash_of_equal_same_values\<close>). They do not in general: \<^verbatim>\<open>True == 1\<close>, so
  \<^verbatim>\<open>Resource({"a": True})\<close> and \<^verbatim>\<open>Resource({"a": 1})\<close> are equal, and their hashes are the
  hashes of two different strings.
\<close>

theorem equal_resources_unequal_dumps:
  \<open>Resource_eq (Resource [(''a'', BoolV True)]) (Resource [(''a'', IntV 1)]) \<and>
   dumps float_repr (attributes (Resource [(''a'', BoolV True)])) = ''{"a": true}'' \<and>
   dumps float_repr (attributes (Resource [(''a'', IntV 1)])) = ''{"a": 1}'' \<and>
   Resource_hash hash float_repr (Resource [(''a'', BoolV True)]) = hash ''{"a": true}'' \<and>
   Resource_hash hash float_repr (Resource [(''a'', IntV 1)]) = hash ''{"a": 1}''\<close>
  by (simp add: Resource_eq_def dict_eq_def Resource_hash_def dumps_def json_string_def
      json_escape_char_def str_int_def)

end
